theory Spec2Isabelle
  imports Main
begin

section \<open>Identifiers, errors and results\<close>

text \<open>
  An \<open>ObjectId\<close> is an opaque identifier. The source compares identifiers through
  \<open>toString()\<close>, which is injective on object identifiers, so the comparison is
  equality of the identifiers.
\<close>

type_synonym ObjectId = nat

text \<open>
  The errors the engine throws. \<open>NotFoundError\<close> carries the identifier of its message;
  the other four are the \<open>NotAllowedError\<close> subclasses with their two arguments.
\<close>

datatype error =
    NotFoundError ObjectId
  | ItemOwnerNotMatchError ObjectId ObjectId
  | ItemViewerNotMatchError ObjectId ObjectId
  | ItemEditorNotMatchError ObjectId ObjectId
  | AccessRestrictedError ObjectId ObjectId

text \<open>
  The \<open>msg\<close> field of a returned confirmation, one constructor per message text:
  \<^item> \<open>ItemAdded\<close>: "Item successfully added!"
  \<^item> \<open>ItemDeleted\<close>: "Item deleted successfully!"
  \<^item> \<open>AlreadyViewer user id\<close>: "user is already a viewer of id"
  \<^item> \<open>ViewersUpdated\<close>: "Viewers successfully updated!"
  \<^item> \<open>AlreadyEditor user id\<close>: "user is already an editor of id"
  \<^item> \<open>EditorsUpdated\<close>: "Editors successfully updated!"
  \<^item> \<open>AlreadyRestricted user id\<close>: "user is already restricted from seeing id"
  \<^item> \<open>AllItemsUpdated\<close>: "Access to all items successfully updated!"
  \<^item> \<open>AccessUpdated user\<close>: "Access for user was successfully updated!"
\<close>

datatype msg =
    ItemAdded
  | ItemDeleted
  | AlreadyViewer ObjectId ObjectId
  | ViewersUpdated
  | AlreadyEditor ObjectId ObjectId
  | EditorsUpdated
  | AlreadyRestricted ObjectId ObjectId
  | AllItemsUpdated
  | AccessUpdated ObjectId

section \<open>Documents\<close>

text \<open>
  \<open>ItemAccessDoc\<close> of \<open>server/concepts/accessList.ts\<close>: the record identifier \<open>_id\<close>
  (here \<open>doc_id\<close>), the owner and the two role arrays. The arrays are lists: the code
  pushes to them and splices them by index.
\<close>

record ItemAccessDoc =
  doc_id :: ObjectId
  owner :: ObjectId
  editors :: "ObjectId list"
  viewers :: "ObjectId list"

text \<open>
  \<open>ItemAccessDoc\<close> of the second variant of the engine (the one with \<open>canView\<close> and the
  bulk operations): the same fields and \<open>item\<close>, the identifier of the protected item.
\<close>

record ItemAccessDoc_p1 = ItemAccessDoc +
  item :: ObjectId

section \<open>The document collection\<close>

text \<open>
  Modelled from the spec: the document database behind the registry (\<open>DocCollection\<close>
  of \<open>framework/doc\<close>, and the database driver under it) is not among the sources.
  The spec describes it as a document database that owns one record per protected item
  under an engine-assigned identifier, stable for the record's lifetime, read and written
  by the engine one operation at a time. This section models what the engine uses of it:
  the stored fields, the query filters, and the five operations.

  A stored field is an identifier or an array of identifiers. A query filter is an
  equality on a named field (\<open>{ name: value }\<close>; the shorthand \<open>{ name }\<close> is
  \<open>{ name: name }\<close>), a conjunction (several keys in one filter object) or a disjunction
  (\<open>$or\<close>). An equality on a field holds when the field is that identifier, or is an
  array that contains it; a document that has no field of that name does not satisfy it.
\<close>

datatype fval = Scalar ObjectId | Array "ObjectId list"

datatype Filter = FieldEq string ObjectId | AndF Filter Filter | OrF Filter Filter

fun fval_matches :: "fval option \<Rightarrow> ObjectId \<Rightarrow> bool" where
  "fval_matches None v = False"
| "fval_matches (Some (Scalar x)) v = (x = v)"
| "fval_matches (Some (Array xs)) v = (v \<in> set xs)"

fun matches :: "('d \<Rightarrow> string \<Rightarrow> fval option) \<Rightarrow> Filter \<Rightarrow> 'd \<Rightarrow> bool" where
  "matches flds (FieldEq n v) d = fval_matches (flds d n) v"
| "matches flds (AndF f g) d = (matches flds f d \<and> matches flds g d)"
| "matches flds (OrF f g) d = (matches flds f d \<or> matches flds g d)"

text \<open>
  The fields of a document of \<open>accessList.ts\<close>, by name: those of the interface
  \<open>ItemAccessDoc\<close> and the \<open>_id\<close> of \<open>BaseDoc\<close>.
\<close>

definition doc_fields :: "ItemAccessDoc \<Rightarrow> string \<Rightarrow> fval option" where
  "doc_fields d n =
     (if n = ''_id'' then Some (Scalar (doc_id d))
      else if n = ''owner'' then Some (Scalar (owner d))
      else if n = ''editors'' then Some (Array (editors d))
      else if n = ''viewers'' then Some (Array (viewers d))
      else None)"

text \<open>
  The fields of a document of the second variant, by name: its interface
  \<open>ItemAccessDoc\<close> adds \<open>item\<close>.
\<close>

definition doc_fields_p1 :: "ItemAccessDoc_p1 \<Rightarrow> string \<Rightarrow> fval option" where
  "doc_fields_p1 d n =
     (if n = ''_id'' then Some (Scalar (doc_id d))
      else if n = ''item'' then Some (Scalar (item d))
      else if n = ''owner'' then Some (Scalar (owner d))
      else if n = ''editors'' then Some (Array (editors d))
      else if n = ''viewers'' then Some (Array (viewers d))
      else None)"

text \<open>
  Modelled from the spec: the state of a collection (the store itself is not among the
  sources). It is the documents in insertion order, and the next identifier the store
  assigns. The timestamps (\<open>dateCreated\<close>, \<open>dateUpdated\<close>) are not modelled.
\<close>

record 'd DocCollection =
  docs :: "'d list"
  next_oid :: ObjectId

fun update_first :: "('d \<Rightarrow> bool) \<Rightarrow> ('d \<Rightarrow> 'd) \<Rightarrow> 'd list \<Rightarrow> 'd list" where
  "update_first P u [] = []"
| "update_first P u (d # ds) = (if P d then u d # ds else d # update_first P u ds)"

fun delete_first :: "('d \<Rightarrow> bool) \<Rightarrow> 'd list \<Rightarrow> 'd list" where
  "delete_first P [] = []"
| "delete_first P (d # ds) = (if P d then ds else d # delete_first P ds)"

text \<open>
  Modelled from the spec: \<open>createOne\<close> of the absent \<open>DocCollection\<close>. It stores the
  document under a fresh, engine-assigned identifier and returns the identifier.
\<close>

definition createOne :: "(ObjectId \<Rightarrow> 'd) \<Rightarrow> 'd DocCollection \<Rightarrow> ObjectId \<times> 'd DocCollection" where
  "createOne mk c =
     (next_oid c, c\<lparr>docs := docs c @ [mk (next_oid c)], next_oid := Suc (next_oid c)\<rparr>)"

text \<open>
  Modelled from the spec: \<open>readOne\<close> of the absent \<open>DocCollection\<close>. It returns the
  first document that satisfies the filter, or nothing (\<open>null\<close>) when there is none.
\<close>

definition readOne ::
  "('d \<Rightarrow> string \<Rightarrow> fval option) \<Rightarrow> Filter \<Rightarrow> 'd DocCollection \<Rightarrow> 'd option" where
  "readOne flds f c = find (matches flds f) (docs c)"


text \<open>
  Modelled from the spec: \<open>updateOne\<close> of the absent \<open>DocCollection\<close>. It sets the
  given fields of the first document that satisfies the filter, and does nothing when
  there is none.
\<close>

definition updateOne ::
  "('d \<Rightarrow> string \<Rightarrow> fval option) \<Rightarrow> Filter \<Rightarrow> ('d \<Rightarrow> 'd) \<Rightarrow> 'd DocCollection \<Rightarrow> 'd DocCollection" where
  "updateOne flds f u c = c\<lparr>docs := update_first (matches flds f) u (docs c)\<rparr>"

text \<open>
  Modelled from the spec: \<open>deleteOne\<close> of the absent \<open>DocCollection\<close>. It removes the
  first document that satisfies the filter, and does nothing when there is none.
\<close>

definition deleteOne ::
  "('d \<Rightarrow> string \<Rightarrow> fval option) \<Rightarrow> Filter \<Rightarrow> 'd DocCollection \<Rightarrow> 'd DocCollection" where
  "deleteOne flds f c = c\<lparr>docs := delete_first (matches flds f) (docs c)\<rparr>"

text \<open>
  The store's own guarantee: identifiers are unique, and every identifier in use is
  below the next one to be assigned.
\<close>

definition wf_store :: "('a ItemAccessDoc_scheme) DocCollection \<Rightarrow> bool" where
  "wf_store c \<longleftrightarrow>
     distinct (map doc_id (docs c)) \<and> list_all (\<lambda>d. doc_id d < next_oid c) (docs c)"

definition empty_store :: "'d DocCollection" where
  "empty_store = \<lparr>docs = [], next_oid = 0\<rparr>"

section \<open>Array helpers\<close>

text \<open>\<open>Array.prototype.findIndex\<close>: the first index whose element satisfies \<open>P\<close>, or \<open>-1\<close>.\<close>

fun findIndex :: "('a \<Rightarrow> bool) \<Rightarrow> 'a list \<Rightarrow> int" where
  "findIndex P [] = - 1"
| "findIndex P (x # xs) =
     (if P x then 0 else (let r = findIndex P xs in if r = - 1 then - 1 else r + 1))"

text \<open>
  \<open>xs.splice(start, 1)\<close> on a copy of the array: a negative \<open>start\<close> counts from the end
  (not below index 0), a \<open>start\<close> beyond the end removes nothing.
\<close>

definition splice1 :: "int \<Rightarrow> 'a list \<Rightarrow> 'a list" where
  "splice1 start xs =
     (let n = int (length xs);
          s = (if start < 0 then max 0 (n + start) else min start n)
      in take (nat s) xs @ drop (nat s + 1) xs)"

section \<open>The engine of \<open>server/concepts/accessList.ts\<close>\<close>

definition addItem ::
  "ObjectId \<Rightarrow> ObjectId list option \<Rightarrow> ObjectId list option \<Rightarrow> ItemAccessDoc DocCollection
     \<Rightarrow> (msg \<times> ItemAccessDoc option) \<times> ItemAccessDoc DocCollection" where
  "addItem own eds vws c =
     (let eds' = (case eds of None \<Rightarrow> [] | Some es \<Rightarrow> es);
          vws' = (case vws of None \<Rightarrow> [] | Some vs \<Rightarrow> vs);
          (i, c') = createOne (\<lambda>i. \<lparr>doc_id = i, owner = own, editors = eds', viewers = vws'\<rparr>) c
      in ((ItemAdded, readOne doc_fields (FieldEq ''_id'' i) c'), c'))"

definition deleteItem ::
  "ObjectId \<Rightarrow> ItemAccessDoc DocCollection \<Rightarrow> msg \<times> ItemAccessDoc DocCollection" where
  "deleteItem i c = (ItemDeleted, deleteOne doc_fields (FieldEq ''_id'' i) c)"

definition isOwner :: "ObjectId \<Rightarrow> ObjectId \<Rightarrow> ItemAccessDoc DocCollection \<Rightarrow> error + unit" where
  "isOwner user i c =
     (case readOne doc_fields (FieldEq ''_id'' i) c of
        None \<Rightarrow> Inl (NotFoundError i)
      | Some it \<Rightarrow>
          if owner it \<noteq> user then Inl (ItemOwnerNotMatchError user i) else Inr ())"

definition isViewer :: "ObjectId \<Rightarrow> ObjectId \<Rightarrow> ItemAccessDoc DocCollection \<Rightarrow> error + unit" where
  "isViewer user i c =
     (case readOne doc_fields (FieldEq ''_id'' i) c of
        None \<Rightarrow> Inl (NotFoundError i)
      | Some it \<Rightarrow>
          if user \<notin> set (viewers it) then Inl (ItemViewerNotMatchError user i) else Inr ())"

definition isEditor :: "ObjectId \<Rightarrow> ObjectId \<Rightarrow> ItemAccessDoc DocCollection \<Rightarrow> error + unit" where
  "isEditor user i c =
     (case readOne doc_fields (FieldEq ''_id'' i) c of
        None \<Rightarrow> Inl (NotFoundError i)
      | Some it \<Rightarrow>
          if user \<notin> set (editors it) then Inl (ItemEditorNotMatchError user i) else Inr ())"

text \<open>
  \<open>setToViewer\<close> tries \<open>isViewer\<close>; any error it throws is caught, and the \<open>catch\<close>
  block reads the record again, throws \<open>NotFoundError\<close> when there is none, and
  otherwise pushes the user to a copy of \<open>viewers\<close> and writes the copy back.
\<close>

definition setToViewer ::
  "ObjectId \<Rightarrow> ObjectId \<Rightarrow> ItemAccessDoc DocCollection
     \<Rightarrow> error + (msg \<times> ItemAccessDoc DocCollection)" where
  "setToViewer i user c =
     (case isViewer user i c of
        Inr _ \<Rightarrow> Inr (AlreadyViewer user i, c)
      | Inl e \<Rightarrow>
          (case readOne doc_fields (FieldEq ''_id'' i) c of
             None \<Rightarrow> Inl (NotFoundError i)
           | Some it \<Rightarrow>
               (let newViewers = viewers it @ [user]
                in Inr (ViewersUpdated,
                        updateOne doc_fields (FieldEq ''_id'' i) (\<lambda>d. d\<lparr>viewers := newViewers\<rparr>) c))))"

definition setToEditor ::
  "ObjectId \<Rightarrow> ObjectId \<Rightarrow> ItemAccessDoc DocCollection
     \<Rightarrow> error + (msg \<times> ItemAccessDoc DocCollection)" where
  "setToEditor i user c =
     (case isEditor user i c of
        Inr _ \<Rightarrow> Inr (AlreadyEditor user i, c)
      | Inl e \<Rightarrow>
          (case readOne doc_fields (FieldEq ''_id'' i) c of
             None \<Rightarrow> Inl (NotFoundError i)
           | Some it \<Rightarrow>
               (let newEditors = editors it @ [user]
                in Inr (EditorsUpdated,
                        updateOne doc_fields (FieldEq ''_id'' i) (\<lambda>d. d\<lparr>editors := newEditors\<rparr>) c))))"

text \<open>
  \<open>removeAccess\<close> never throws. Its result is the confirmation, or \<open>None\<close> where the
  function falls off its end and returns \<open>undefined\<close>. The branch that updates the
  editors returns the message "Viewers successfully updated!", as the source does.
\<close>

definition removeAccess ::
  "ObjectId \<Rightarrow> ObjectId \<Rightarrow> ItemAccessDoc DocCollection
     \<Rightarrow> msg option \<times> ItemAccessDoc DocCollection" where
  "removeAccess i user c =
     (case readOne doc_fields
             (AndF (FieldEq ''_id'' i) (OrF (FieldEq ''viewers'' user) (FieldEq ''editors'' user))) c of
        None \<Rightarrow> (Some (AlreadyRestricted user i), c)
      | Some it \<Rightarrow>
          (let userViewerIndex = findIndex (\<lambda>v. v = user) (viewers it)
           in if userViewerIndex \<noteq> - 1
              then (let newViewers = splice1 userViewerIndex (viewers it)
                    in (Some ViewersUpdated,
                        updateOne doc_fields (FieldEq ''_id'' i) (\<lambda>d. d\<lparr>viewers := newViewers\<rparr>) c))
              else (let userEditorIndex = findIndex (\<lambda>e. e = user) (editors it)
                    in if userEditorIndex \<noteq> - 1
                       then (let newEditors = splice1 userEditorIndex (editors it)
                             in (Some ViewersUpdated,
                                 updateOne doc_fields (FieldEq ''_id'' i)
                                   (\<lambda>d. d\<lparr>editors := newEditors\<rparr>) c))
                       else (None, c))))"

section \<open>The engine of the second variant\<close>

text \<open>
  The variant that keeps the protected item's identifier in the field \<open>item\<close> and adds
  \<open>canView\<close> and the bulk operations. Its functions carry the suffix \<open>_p1\<close> where the
  name is also one of \<open>accessList.ts\<close>. The filters are the source's: \<open>isOwner\<close> reads
  by \<open>{ item: itemId }\<close>, \<open>setToViewer\<close> and \<open>setToEditor\<close> read and write by
  \<open>{ _id }\<close>, and \<open>isViewer\<close>, \<open>isEditor\<close>, \<open>canView\<close> and \<open>removeAccess\<close> use
  the shorthand \<open>{ itemId }\<close>, an equality on a field named \<open>itemId\<close>.
\<close>

definition addItem_p1 ::
  "ObjectId \<Rightarrow> ObjectId \<Rightarrow> ObjectId list option \<Rightarrow> ObjectId list option
     \<Rightarrow> ItemAccessDoc_p1 DocCollection
     \<Rightarrow> (msg \<times> ItemAccessDoc_p1 option) \<times> ItemAccessDoc_p1 DocCollection" where
  "addItem_p1 itm own eds vws c =
     (let eds' = (case eds of None \<Rightarrow> [] | Some es \<Rightarrow> es);
          vws' = (case vws of None \<Rightarrow> [] | Some vs \<Rightarrow> vs);
          (i, c') = createOne
             (\<lambda>i. \<lparr>doc_id = i, owner = own, editors = eds', viewers = vws', item = itm\<rparr>) c
      in ((ItemAdded, readOne doc_fields_p1 (FieldEq ''_id'' i) c'), c'))"

definition deleteItem_p1 ::
  "ObjectId \<Rightarrow> ItemAccessDoc_p1 DocCollection \<Rightarrow> msg \<times> ItemAccessDoc_p1 DocCollection" where
  "deleteItem_p1 itm c = (ItemDeleted, deleteOne doc_fields_p1 (FieldEq ''item'' itm) c)"




definition isOwner_p1 ::
  "ObjectId \<Rightarrow> ObjectId \<Rightarrow> ItemAccessDoc_p1 DocCollection \<Rightarrow> error + unit" where
  "isOwner_p1 user itemId c =
     (case readOne doc_fields_p1 (FieldEq ''item'' itemId) c of
        None \<Rightarrow> Inl (NotFoundError itemId)
      | Some it \<Rightarrow>
          if owner it \<noteq> user then Inl (ItemOwnerNotMatchError user itemId) else Inr ())"

definition isViewer_p1 ::
  "ObjectId \<Rightarrow> ObjectId \<Rightarrow> ItemAccessDoc_p1 DocCollection \<Rightarrow> error + unit" where
  "isViewer_p1 user itemId c =
     (case readOne doc_fields_p1 (FieldEq ''itemId'' itemId) c of
        None \<Rightarrow> Inl (NotFoundError itemId)
      | Some it \<Rightarrow>
          if user \<notin> set (viewers it) then Inl (ItemViewerNotMatchError user itemId)
          else Inr ())"

definition isEditor_p1 ::
  "ObjectId \<Rightarrow> ObjectId \<Rightarrow> ItemAccessDoc_p1 DocCollection \<Rightarrow> error + unit" where
  "isEditor_p1 user itemId c =
     (case readOne doc_fields_p1 (FieldEq ''itemId'' itemId) c of
        None \<Rightarrow> Inl (NotFoundError itemId)
      | Some it \<Rightarrow>
          if user \<notin> set (editors it) then Inl (ItemEditorNotMatchError user itemId)
          else Inr ())"

definition setToViewer_p1 ::
  "ObjectId \<Rightarrow> ObjectId \<Rightarrow> ItemAccessDoc_p1 DocCollection
     \<Rightarrow> error + (msg \<times> ItemAccessDoc_p1 DocCollection)" where
  "setToViewer_p1 i user c =
     (case isViewer_p1 user i c of
        Inr _ \<Rightarrow> Inr (AlreadyViewer user i, c)
      | Inl e \<Rightarrow>
          (case readOne doc_fields_p1 (FieldEq ''_id'' i) c of
             None \<Rightarrow> Inl (NotFoundError i)
           | Some it \<Rightarrow>
               (let newViewers = viewers it @ [user]
                in Inr (ViewersUpdated,
                        updateOne doc_fields_p1 (FieldEq ''_id'' i)
                          (\<lambda>d. d\<lparr>viewers := newViewers\<rparr>) c))))"

definition setToEditor_p1 ::
  "ObjectId \<Rightarrow> ObjectId \<Rightarrow> ItemAccessDoc_p1 DocCollection
     \<Rightarrow> error + (msg \<times> ItemAccessDoc_p1 DocCollection)" where
  "setToEditor_p1 i user c =
     (case isEditor_p1 user i c of
        Inr _ \<Rightarrow> Inr (AlreadyEditor user i, c)
      | Inl e \<Rightarrow>
          (case readOne doc_fields_p1 (FieldEq ''_id'' i) c of
             None \<Rightarrow> Inl (NotFoundError i)
           | Some it \<Rightarrow>
               (let newEditors = editors it @ [user]
                in Inr (EditorsUpdated,
                        updateOne doc_fields_p1 (FieldEq ''_id'' i)
                          (\<lambda>d. d\<lparr>editors := newEditors\<rparr>) c))))"


definition removeAccess_p1 ::
  "ObjectId \<Rightarrow> ObjectId \<Rightarrow> ItemAccessDoc_p1 DocCollection
     \<Rightarrow> msg \<times> ItemAccessDoc_p1 DocCollection" where
  "removeAccess_p1 itemId user c =
     (case readOne doc_fields_p1
             (AndF (FieldEq ''itemId'' itemId)
                   (OrF (FieldEq ''viewers'' user) (FieldEq ''editors'' user))) c of
        None \<Rightarrow> (AlreadyRestricted user itemId, c)
      | Some it \<Rightarrow>
          (let userViewerIndex = findIndex (\<lambda>v. v = user) (viewers it)
           in if userViewerIndex \<noteq> - 1
              then (let newViewers = splice1 userViewerIndex (viewers it)
                    in (ViewersUpdated,
                        updateOne doc_fields_p1 (FieldEq ''itemId'' itemId)
                          (\<lambda>d. d\<lparr>viewers := newViewers\<rparr>) c))
              else (let userEditorIndex = findIndex (\<lambda>e. e = user) (editors it);
                        newEditors = splice1 userEditorIndex (editors it)
                    in (EditorsUpdated,
                        updateOne doc_fields_p1 (FieldEq ''itemId'' itemId)
                          (\<lambda>d. d\<lparr>editors := newEditors\<rparr>) c))))"

definition hasItemAccess :: "ItemAccessDoc_p1 \<Rightarrow> ObjectId \<Rightarrow> bool" where
  "hasItemAccess it user =
     (let isOwner' = (owner it = user);
          isViewer' = (user \<in> set (viewers it));
          isEditor' = (user \<in> set (editors it))
      in isOwner' \<or> isViewer' \<or> isEditor')"

definition canView ::
  "ObjectId \<Rightarrow> ObjectId \<Rightarrow> ItemAccessDoc_p1 DocCollection \<Rightarrow> error + unit" where
  "canView user itemId c =
     (case readOne doc_fields_p1 (FieldEq ''itemId'' itemId) c of
        None \<Rightarrow> Inl (NotFoundError itemId)
      | Some it \<Rightarrow>
          if \<not> hasItemAccess it user then Inl (AccessRestrictedError user itemId)
          else Inr ())"

section \<open>\<open>setToViewer\<close>, one await at a time\<close>

text \<open>
  \<open>setToViewer\<close> of \<open>accessList.ts\<close> is an \<open>async\<close> function that awaits three
  operations of the collection in turn: the read inside \<open>isViewer\<close>, the read of the
  \<open>catch\<close> block, and the write of the new \<open>viewers\<close>. Between two awaits its code runs
  without interruption; at an await, another call may run. A call in progress is at its
  start, in the \<open>catch\<close> block before its read, holding the item it has read, or
  finished with its error or its confirmation. A step runs a call from one await to the
  next: the operation, and the code that follows it.
\<close>

datatype call = Start | Caught | HasItem ItemAccessDoc | Finished "error + msg"

fun setToViewer_step ::
  "ObjectId \<Rightarrow> ObjectId \<Rightarrow> call \<Rightarrow> ItemAccessDoc DocCollection
     \<Rightarrow> call \<times> ItemAccessDoc DocCollection" where
  "setToViewer_step i user Start c =
     (case isViewer user i c of
        Inr _ \<Rightarrow> (Finished (Inr (AlreadyViewer user i)), c)
      | Inl e \<Rightarrow> (Caught, c))"
| "setToViewer_step i user Caught c =
     (case readOne doc_fields (FieldEq ''_id'' i) c of
        None \<Rightarrow> (Finished (Inl (NotFoundError i)), c)
      | Some it \<Rightarrow> (HasItem it, c))"
| "setToViewer_step i user (HasItem it) c =
     (let newViewers = viewers it @ [user]
      in (Finished (Inr ViewersUpdated),
          updateOne doc_fields (FieldEq ''_id'' i) (\<lambda>d. d\<lparr>viewers := newViewers\<rparr>) c))"
| "setToViewer_step i user (Finished r) c = (Finished r, c)"

section \<open>Vocabulary of the properties\<close>



definition dup_free_arg :: "ObjectId list option \<Rightarrow> bool" where
  "dup_free_arg a = (case a of None \<Rightarrow> True | Some xs \<Rightarrow> distinct xs)"

text \<open>
  The states of the registry of \<open>accessList.ts\<close> that its operations reach from the
  empty collection, when \<open>addItem\<close> is only given initial role lists without duplicates.
\<close>

inductive reachable :: "ItemAccessDoc DocCollection \<Rightarrow> bool" where
  r_empty: "reachable empty_store"
| r_addItem: "reachable c \<Longrightarrow> dup_free_arg eds \<Longrightarrow> dup_free_arg vws
     \<Longrightarrow> reachable (snd (addItem own eds vws c))"
| r_deleteItem: "reachable c \<Longrightarrow> reachable (snd (deleteItem i c))"
| r_setToViewer: "reachable c \<Longrightarrow> setToViewer i user c = Inr (m, c') \<Longrightarrow> reachable c'"
| r_setToEditor: "reachable c \<Longrightarrow> setToEditor i user c = Inr (m, c') \<Longrightarrow> reachable c'"
| r_removeAccess: "reachable c \<Longrightarrow> reachable (snd (removeAccess i user c))"

text \<open>
  A sequence of role mutations, as a caller issues them: a call that throws leaves the
  collection as it was, and the next call runs on it.
\<close>

datatype op = SetToViewer ObjectId ObjectId | SetToEditor ObjectId ObjectId
  | RemoveAccess ObjectId ObjectId

fun apply_op :: "op \<Rightarrow> ItemAccessDoc DocCollection \<Rightarrow> ItemAccessDoc DocCollection" where
  "apply_op (SetToViewer i user) c =
     (case setToViewer i user c of Inl e \<Rightarrow> c | Inr (m, c') \<Rightarrow> c')"
| "apply_op (SetToEditor i user) c =
     (case setToEditor i user c of Inl e \<Rightarrow> c | Inr (m, c') \<Rightarrow> c')"
| "apply_op (RemoveAccess i user) c = snd (removeAccess i user c)"

definition run_ops :: "op list \<Rightarrow> ItemAccessDoc DocCollection \<Rightarrow> ItemAccessDoc DocCollection" where
  "run_ops ops c = fold apply_op ops c"

text \<open>The identifier and the owner of every record, in the collection's order.\<close>

definition owners :: "('a ItemAccessDoc_scheme) DocCollection \<Rightarrow> (ObjectId \<times> ObjectId) list" where
  "owners c = map (\<lambda>d. (doc_id d, owner d)) (docs c)"

text \<open>
  Two calls \<open>setToViewer(i, u1)\<close> and \<open>setToViewer(i, u2)\<close> in flight on one collection.
  A schedule says whose step runs next; \<open>run_schedule\<close> runs the two calls by it.
\<close>

datatype turn = First | Second

fun run_schedule ::
  "ObjectId \<Rightarrow> ObjectId \<Rightarrow> ObjectId \<Rightarrow> turn list
     \<Rightarrow> call \<times> call \<times> ItemAccessDoc DocCollection
     \<Rightarrow> call \<times> call \<times> ItemAccessDoc DocCollection" where
  "run_schedule i u1 u2 [] cfg = cfg"
| "run_schedule i u1 u2 (First # sch) (a, b, c) =
     (let (a', c') = setToViewer_step i u1 a c in run_schedule i u1 u2 sch (a', b, c'))"
| "run_schedule i u1 u2 (Second # sch) (a, b, c) =
     (let (b', c') = setToViewer_step i u2 b c in run_schedule i u1 u2 sch (a, b', c'))"

text \<open>Every way to merge two sequences of steps, each kept in its own order.\<close>

fun interleave :: "'a list \<Rightarrow> 'a list \<Rightarrow> 'a list list" where
  "interleave [] ys = [ys]"
| "interleave xs [] = [xs]"
| "interleave (x # xs) (y # ys) =
     map ((#) x) (interleave xs (y # ys)) @ map ((#) y) (interleave (x # xs) ys)"

text \<open>
  The place in a schedule of a call's step number \<open>k\<close> (counted from 0: the check, the
  read, the write). In \<open>write_between\<close> schedules, the write of one call falls after
  the read of the other call and before that call's write.
\<close>

fun step_pos :: "turn \<Rightarrow> nat \<Rightarrow> turn list \<Rightarrow> nat" where
  "step_pos t k [] = 0"
| "step_pos t k (x # xs) =
     (if x = t then (case k of 0 \<Rightarrow> 0 | Suc k' \<Rightarrow> Suc (step_pos t k' xs))
      else Suc (step_pos t k xs))"

definition write_between :: "turn list \<Rightarrow> bool" where
  "write_between sch =
     (let r1 = step_pos First (Suc 0) sch; w1 = step_pos First (Suc (Suc 0)) sch;
          r2 = step_pos Second (Suc 0) sch; w2 = step_pos Second (Suc (Suc 0)) sch
      in (r2 < w1 \<and> w1 < w2) \<or> (r1 < w2 \<and> w2 < w1))"

section \<open>Filters on the fields of a document\<close>

lemma matches_id [simp]: "matches doc_fields (FieldEq ''_id'' i) = (\<lambda>d. doc_id d = i)"
  by (rule ext) (simp add: doc_fields_def)

lemma matches_viewers [simp]:
  "matches doc_fields (FieldEq ''viewers'' u) = (\<lambda>d. u \<in> set (viewers d))"
  by (rule ext) (simp add: doc_fields_def)

lemma matches_editors [simp]:
  "matches doc_fields (FieldEq ''editors'' u) = (\<lambda>d. u \<in> set (editors d))"
  by (rule ext) (simp add: doc_fields_def)

lemma matches_id_role [simp]:
  "matches doc_fields
     (AndF (FieldEq ''_id'' i) (OrF (FieldEq ''viewers'' u) (FieldEq ''editors'' u)))
   = (\<lambda>d. doc_id d = i \<and> (u \<in> set (viewers d) \<or> u \<in> set (editors d)))"
  by (rule ext) (simp add: doc_fields_def)

text \<open>
  No document of the second variant has a field named \<open>itemId\<close>, so the filter
  \<open>{ itemId }\<close> selects nothing.
\<close>

lemma matches_itemId [simp]: "matches doc_fields_p1 (FieldEq ''itemId'' x) = (\<lambda>d. False)"
  by (rule ext) (simp add: doc_fields_p1_def)

lemma find_False [simp]: "find (\<lambda>d. False) ds = None"
  by (induction ds) auto

section \<open>Arrays: the index of a user and its removal\<close>

lemma findIndex_ge: "- 1 \<le> findIndex P xs"
  by (induction xs) (auto simp: Let_def)

lemma findIndex_none: "findIndex P xs = - 1 \<longleftrightarrow> \<not> list_ex P xs"
proof (induction xs)
  case Nil
  then show ?case by simp
next
  case (Cons x xs)
  have "findIndex P xs + 1 \<noteq> - 1" using findIndex_ge [of P xs] by arith
  with Cons show ?case by (auto simp: Let_def)
qed

lemma findIndex_eq_none: "findIndex (\<lambda>v. v = x) xs = - 1 \<longleftrightarrow> x \<notin> set xs"
  by (simp add: findIndex_none list_ex_iff)

lemma splice1_nat: "splice1 (int k) xs = take k xs @ drop (Suc k) xs"
  by (cases "k \<le> length xs") (auto simp: splice1_def Let_def min_def)

lemma findIndex_first:
  "x \<in> set xs \<Longrightarrow> \<exists>k. findIndex (\<lambda>v. v = x) xs = int k \<and> k < length xs
     \<and> take k xs @ drop (Suc k) xs = remove1 x xs"
proof (induction xs)
  case Nil
  then show ?case by simp
next
  case (Cons y ys)
  show ?case
  proof (cases "y = x")
    case True
    then have "findIndex (\<lambda>v. v = x) (y # ys) = int 0 \<and> 0 < length (y # ys)
        \<and> take 0 (y # ys) @ drop (Suc 0) (y # ys) = remove1 x (y # ys)" by simp
    then show ?thesis by blast
  next
    case False
    with Cons obtain k where k: "findIndex (\<lambda>v. v = x) ys = int k" "k < length ys"
      "take k ys @ drop (Suc k) ys = remove1 x ys" by auto
    with False have "findIndex (\<lambda>v. v = x) (y # ys) = int (Suc k) \<and> Suc k < length (y # ys)
        \<and> take (Suc k) (y # ys) @ drop (Suc (Suc k)) (y # ys) = remove1 x (y # ys)"
      by (auto simp: Let_def)
    then show ?thesis by blast
  qed
qed

lemma splice1_findIndex:
  "x \<in> set xs \<Longrightarrow> splice1 (findIndex (\<lambda>v. v = x) xs) xs = remove1 x xs"
  using findIndex_first [of x xs] by (auto simp: splice1_nat)



lemma findIndex_append_new:
  "u \<notin> set es \<Longrightarrow> splice1 (findIndex (\<lambda>e. e = u) (es @ [u])) (es @ [u]) = es"
  by (simp add: splice1_findIndex remove1_append)

section \<open>The first document that satisfies a filter\<close>

lemma find_append_fresh:
  "list_all (\<lambda>d. \<not> P d) ds \<Longrightarrow> P x \<Longrightarrow> find P (ds @ [x]) = Some x"
  by (induction ds) auto

lemma find_in_set: "find P ds = Some d \<Longrightarrow> d \<in> set ds \<and> P d"
  by (induction ds) (auto split: if_splits)

lemma find_stronger:
  "find P ds = Some d \<Longrightarrow> Q d \<Longrightarrow> (\<And>x. Q x \<Longrightarrow> P x) \<Longrightarrow> find Q ds = Some d"
  by (induction ds) (auto split: if_splits)

lemma list_all_update_first:
  "list_all Q ds \<Longrightarrow> (\<And>d. Q d \<Longrightarrow> Q (u d)) \<Longrightarrow> list_all Q (update_first P u ds)"
  by (induction ds) auto

lemma list_all_delete_first: "list_all Q ds \<Longrightarrow> list_all Q (delete_first P ds)"
  by (induction ds) auto

lemma map_update_first:
  "(\<And>d. f (u d) = f d) \<Longrightarrow> map f (update_first P u ds) = map f ds"
  by (induction ds) auto

lemma set_delete_first: "set (delete_first P ds) \<subseteq> set ds"
  by (induction ds) auto

lemma delete_first_absent: "find P ds = None \<Longrightarrow> delete_first P ds = ds"
  by (induction ds) (auto split: if_splits)

lemma find_delete_first_id:
  "distinct (map doc_id ds) \<Longrightarrow>
     find (\<lambda>d. doc_id d = i) (delete_first (\<lambda>d. doc_id d = i) ds) = None"
proof (induction ds)
  case Nil
  then show ?case by simp
next
  case (Cons a ds)
  show ?case
  proof (cases "doc_id a = i")
    case True
    with Cons.prems have "i \<notin> doc_id ` set ds" by simp
    then have "\<forall>x\<in>set ds. doc_id x \<noteq> i" by blast
    with True show ?thesis by (simp add: find_None_iff)
  next
    case False
    with Cons show ?thesis by simp
  qed
qed

lemma find_id_unique:
  "distinct (map doc_id ds) \<Longrightarrow> find (\<lambda>d. doc_id d = i) ds = Some d \<Longrightarrow>
     find (\<lambda>d. doc_id d = i \<and> Q d) ds = (if Q d then Some d else None)"
proof (induction ds)
  case Nil
  then show ?case by simp
next
  case (Cons a ds)
  show ?case
  proof (cases "doc_id a = i")
    case True
    with Cons.prems have "i \<notin> doc_id ` set ds" and da: "d = a" by simp_all
    then have "\<forall>x\<in>set ds. doc_id x \<noteq> i" by blast
    with da have "\<forall>x\<in>set ds. doc_id x \<noteq> i" and "d = a" by simp_all
    with True show ?thesis by (auto simp: find_None_iff)
  next
    case False
    with Cons show ?thesis by simp
  qed
qed

lemma find_id_none:
  "find (\<lambda>d. doc_id d = i) ds = None \<Longrightarrow> find (\<lambda>d. doc_id d = i \<and> Q d) ds = None"
  by (auto simp: find_None_iff)

lemma find_update_first:
  "find P ds = Some d \<Longrightarrow> Q (u d) \<Longrightarrow> (\<And>x. Q x \<Longrightarrow> P x) \<Longrightarrow>
     find Q (update_first P u ds) = Some (u d)"
  by (induction ds) (auto split: if_splits)

lemma update_first_twice:
  "find P ds = Some d \<Longrightarrow> P (u1 d) \<Longrightarrow> u2 (u1 d) = d \<Longrightarrow>
     update_first P u2 (update_first P u1 ds) = ds"
  by (induction ds) (auto split: if_splits)

lemma distinct_map_delete_first:
  "distinct (map f ds) \<Longrightarrow> distinct (map f (delete_first P ds))"
proof (induction ds)
  case Nil
  then show ?case by simp
next
  case (Cons a ds)
  have "f ` set (delete_first P ds) \<subseteq> f ` set ds"
    using set_delete_first [of P ds] by blast
  with Cons show ?case by auto
qed

section \<open>Creation and ownership\<close>

lemma addItem_result:
  assumes "wf_store c"
  shows "addItem u eds vws c =
    ((ItemAdded, Some \<lparr>doc_id = next_oid c, owner = u,
         editors = (case eds of None \<Rightarrow> [] | Some es \<Rightarrow> es),
         viewers = (case vws of None \<Rightarrow> [] | Some vs \<Rightarrow> vs)\<rparr>),
     c\<lparr>docs := docs c @ [\<lparr>doc_id = next_oid c, owner = u,
         editors = (case eds of None \<Rightarrow> [] | Some es \<Rightarrow> es),
         viewers = (case vws of None \<Rightarrow> [] | Some vs \<Rightarrow> vs)\<rparr>],
       next_oid := Suc (next_oid c)\<rparr>)"
proof -
  have "list_all (\<lambda>d. \<not> doc_id d = next_oid c) (docs c)"
    using assms by (auto simp: wf_store_def list_all_iff)
  then show ?thesis
    by (simp add: addItem_def createOne_def readOne_def find_append_fresh Let_def)
qed

text \<open>
  Claim C5. In a collection whose identifiers are unique and below the next identifier,
  \<open>addItem\<close> with owner \<open>u\<close> returns the record it created; right after it, \<open>isOwner\<close>
  succeeds on that record for \<open>u\<close>, and fails with the owner mismatch error for every
  other user \<open>v\<close>.
\<close>

theorem addItem_isOwner:
  assumes "wf_store c" and "addItem u eds vws c = ((m, it), c')"
  shows "\<exists>d. it = Some d \<and> owner d = u \<and> isOwner u (doc_id d) c' = Inr ()
           \<and> (\<forall>v. v \<noteq> u \<longrightarrow>
                 isOwner v (doc_id d) c' = Inl (ItemOwnerNotMatchError v (doc_id d)))"
proof -
  have "list_all (\<lambda>d. \<not> doc_id d = next_oid c) (docs c)"
    using assms(1) by (auto simp: wf_store_def list_all_iff)
  then show ?thesis
    using assms(2) unfolding addItem_result [OF assms(1)]
    by (auto simp: isOwner_def readOne_def find_append_fresh)
qed

theorem addItem_isOwner_witness:
  "wf_store (empty_store :: ItemAccessDoc DocCollection) \<and>
   isOwner 4 0 (snd (addItem 4 None None empty_store)) = Inr () \<and>
   isOwner 5 0 (snd (addItem 4 None None empty_store)) = Inl (ItemOwnerNotMatchError 5 0)"
proof -
  have w: "wf_store (empty_store :: ItemAccessDoc DocCollection)"
    by (simp add: wf_store_def empty_store_def)
  have r: "addItem 4 None None empty_store =
      ((ItemAdded, Some \<lparr>doc_id = 0, owner = 4, editors = [], viewers = []\<rparr>),
       \<lparr>docs = [\<lparr>doc_id = 0, owner = 4, editors = [], viewers = []\<rparr>], next_oid = Suc 0\<rparr>)"
    by (simp add: addItem_def createOne_def readOne_def empty_store_def doc_fields_def)
  from addItem_isOwner [OF w r] show ?thesis
    using w r by auto
qed

section \<open>Unique identifiers in every reachable state\<close>

lemma wf_store_update:
  "wf_store c \<Longrightarrow> (\<And>d. doc_id (u d) = doc_id d) \<Longrightarrow> wf_store (updateOne flds f u c)"
  unfolding wf_store_def updateOne_def
  by (auto simp: map_update_first intro!: list_all_update_first)

lemma wf_store_addItem: "wf_store c \<Longrightarrow> wf_store (snd (addItem own eds vws c))"
  by (auto simp: addItem_def createOne_def wf_store_def Let_def list_all_iff)

lemma wf_store_deleteItem: "wf_store c \<Longrightarrow> wf_store (snd (deleteItem i c))"
  by (simp add: deleteItem_def deleteOne_def wf_store_def distinct_map_delete_first
      list_all_delete_first)

lemma wf_store_setToViewer: "wf_store c \<Longrightarrow> setToViewer i user c = Inr (m, c') \<Longrightarrow> wf_store c'"
  by (auto simp: setToViewer_def Let_def wf_store_update split: sum.splits option.splits)

lemma wf_store_setToEditor: "wf_store c \<Longrightarrow> setToEditor i user c = Inr (m, c') \<Longrightarrow> wf_store c'"
  by (auto simp: setToEditor_def Let_def wf_store_update split: sum.splits option.splits)

lemma wf_store_removeAccess: "wf_store c \<Longrightarrow> wf_store (snd (removeAccess i user c))"
  by (simp add: removeAccess_def Let_def wf_store_update split: option.splits)

lemma reachable_wf_store: "reachable c \<Longrightarrow> wf_store c"
proof (induction rule: reachable.induct)
  case r_empty
  show ?case by (simp add: wf_store_def empty_store_def)
qed (auto intro: wf_store_addItem wf_store_deleteItem wf_store_setToViewer wf_store_setToEditor
      wf_store_removeAccess)

section \<open>The owner is never changed\<close>

lemma owners_update_viewers [simp]:
  "owners (updateOne flds f (\<lambda>d. d\<lparr>viewers := vs\<rparr>) c) = owners c"
  by (simp add: owners_def updateOne_def map_update_first)

lemma owners_update_editors [simp]:
  "owners (updateOne flds f (\<lambda>d. d\<lparr>editors := es\<rparr>) c) = owners c"
  by (simp add: owners_def updateOne_def map_update_first)

lemma owners_setToViewer: "setToViewer i user c = Inr (m, c') \<Longrightarrow> owners c' = owners c"
  by (auto simp: setToViewer_def Let_def split: sum.splits option.splits)

lemma owners_setToEditor: "setToEditor i user c = Inr (m, c') \<Longrightarrow> owners c' = owners c"
  by (auto simp: setToEditor_def Let_def split: sum.splits option.splits)

lemma owners_removeAccess: "owners (snd (removeAccess i user c)) = owners c"
  by (simp add: removeAccess_def Let_def split: option.splits)

lemma owners_apply_op: "owners (apply_op x c) = owners c"
  by (cases x) (auto simp: owners_removeAccess owners_setToViewer owners_setToEditor
      split: sum.splits)

lemma owners_fold: "owners (fold apply_op ops c) = owners c"
  by (induction ops arbitrary: c) (simp_all add: owners_apply_op)

text \<open>
  Claim C8. The owner of a record is set when the record is created and no role mutation
  changes it: after any sequence of \<open>setToViewer\<close>, \<open>setToEditor\<close> and \<open>removeAccess\<close>
  calls, successful or not, the collection holds the same records with the same owners,
  and a single \<open>removeAccess\<close> leaves every owner as it was.
\<close>

theorem owner_frame:
  "owners (run_ops ops c) = owners c \<and> owners (snd (removeAccess i user c)) = owners c"
  by (simp add: run_ops_def owners_fold owners_removeAccess)

section \<open>Operations on an absent target\<close>

text \<open>
  Claim C9. In a collection with unique identifiers: \<open>deleteItem\<close> never throws and
  returns its confirmation, and on an identifier without a record it changes nothing;
  \<open>removeAccess\<close> for a user who is in neither \<open>viewers\<close> nor \<open>editors\<close> of the
  record (or when there is no record) returns the "already restricted" confirmation and
  changes nothing; and after \<open>deleteItem\<close> of an identifier, \<open>isOwner\<close> on that
  identifier fails with \<open>NotFoundError\<close>.
\<close>

theorem absent_target_noops:
  assumes "wf_store c"
  shows "fst (deleteItem j c) = ItemDeleted \<and>
    (readOne doc_fields (FieldEq ''_id'' i) c = None \<longrightarrow> deleteItem i c = (ItemDeleted, c)) \<and>
    ((\<forall>d. readOne doc_fields (FieldEq ''_id'' i) c = Some d \<longrightarrow>
          u \<notin> set (viewers d) \<and> u \<notin> set (editors d)) \<longrightarrow>
       removeAccess i u c = (Some (AlreadyRestricted u i), c)) \<and>
    isOwner u j (snd (deleteItem j c)) = Inl (NotFoundError j)"
proof -
  have dist: "distinct (map doc_id (docs c))" using assms by (simp add: wf_store_def)
  have 1: "fst (deleteItem j c) = ItemDeleted" by (simp add: deleteItem_def)
  have 2: "deleteItem i c = (ItemDeleted, c)" if "readOne doc_fields (FieldEq ''_id'' i) c = None"
    using that by (simp add: deleteItem_def deleteOne_def readOne_def delete_first_absent)
  have 3: "removeAccess i u c = (Some (AlreadyRestricted u i), c)"
    if h: "\<forall>d. readOne doc_fields (FieldEq ''_id'' i) c = Some d \<longrightarrow>
          u \<notin> set (viewers d) \<and> u \<notin> set (editors d)"
  proof (cases "find (\<lambda>d. doc_id d = i) (docs c)")
    case None
    then show ?thesis
      by (simp add: removeAccess_def readOne_def find_id_none)
  next
    case (Some d)
    with h have "u \<notin> set (viewers d) \<and> u \<notin> set (editors d)" by (simp add: readOne_def)
    with Some show ?thesis
      by (simp add: removeAccess_def readOne_def find_id_unique [OF dist Some])
  qed
  have 4: "isOwner u j (snd (deleteItem j c)) = Inl (NotFoundError j)"
    by (simp add: isOwner_def deleteItem_def deleteOne_def readOne_def find_delete_first_id [OF dist])
  from 1 2 3 4 show ?thesis by blast
qed

theorem absent_target_noops_witness:
  "wf_store \<lparr>docs = [\<lparr>doc_id = 0, owner = 1, editors = [], viewers = [2]\<rparr>], next_oid = 1\<rparr>
   \<and> deleteItem 5 \<lparr>docs = [\<lparr>doc_id = 0, owner = 1, editors = [], viewers = [2]\<rparr>], next_oid = 1\<rparr>
      = (ItemDeleted, \<lparr>docs = [\<lparr>doc_id = 0, owner = 1, editors = [], viewers = [2]\<rparr>], next_oid = 1\<rparr>)
   \<and> removeAccess 0 3 \<lparr>docs = [\<lparr>doc_id = 0, owner = 1, editors = [], viewers = [2]\<rparr>], next_oid = 1\<rparr>
      = (Some (AlreadyRestricted 3 0),
         \<lparr>docs = [\<lparr>doc_id = 0, owner = 1, editors = [], viewers = [2]\<rparr>], next_oid = 1\<rparr>)
   \<and> isOwner 1 0 (snd (deleteItem 0
        \<lparr>docs = [\<lparr>doc_id = 0, owner = 1, editors = [], viewers = [2]\<rparr>], next_oid = 1\<rparr>))
      = Inl (NotFoundError 0)"
proof -
  let ?c = "\<lparr>docs = [\<lparr>doc_id = 0, owner = 1, editors = [], viewers = [2]\<rparr>], next_oid = 1\<rparr>
    :: ItemAccessDoc DocCollection"
  have w: "wf_store ?c" by (simp add: wf_store_def)
  have a: "readOne doc_fields (FieldEq ''_id'' 5) ?c = None" by (simp add: readOne_def)
  have b: "\<forall>d. readOne doc_fields (FieldEq ''_id'' 0) ?c = Some d \<longrightarrow>
          3 \<notin> set (viewers d) \<and> 3 \<notin> set (editors d)" by (auto simp: readOne_def)
  from absent_target_noops [OF w, of 0 5 3] a
  have 1: "deleteItem 5 ?c = (ItemDeleted, ?c)" by blast
  from absent_target_noops [OF w, of 0 0 3] b
  have 2: "removeAccess 0 3 ?c = (Some (AlreadyRestricted 3 0), ?c)" by blast
  from absent_target_noops [OF w, of 0 0 1]
  have 3: "isOwner 1 0 (snd (deleteItem 0 ?c)) = Inl (NotFoundError 0)" by blast
  from w 1 2 3 show ?thesis by blast
qed

section \<open>Granting and revoking the editor role\<close>

text \<open>
  Claim C6, as amended. For an existing record and a user who is at that moment neither
  an editor nor a viewer of it, \<open>setToEditor\<close> makes the user an editor, and
  \<open>removeAccess\<close> for the same user then returns the collection to the state before the
  grant: the user is removed from \<open>editors\<close>, and nothing else has changed.
\<close>

theorem grant_revoke_roundtrip:
  assumes rd: "readOne doc_fields (FieldEq ''_id'' i) c = Some d"
    and ne: "u \<notin> set (editors d)" and nv: "u \<notin> set (viewers d)"
  shows "\<exists>c1. setToEditor i u c = Inr (EditorsUpdated, c1) \<and> isEditor u i c1 = Inr ()
            \<and> removeAccess i u c1 = (Some ViewersUpdated, c)"
proof -
  let ?upd = "\<lambda>x :: ItemAccessDoc. x\<lparr>editors := editors d @ [u]\<rparr>"
  let ?cg = "updateOne doc_fields (FieldEq ''_id'' i) ?upd c"
  from rd have f: "find (\<lambda>x. doc_id x = i) (docs c) = Some d" by (simp add: readOne_def)
  then have di: "doc_id d = i" by (auto dest: find_in_set)
  have s: "setToEditor i u c = Inr (EditorsUpdated, ?cg)"
    using rd ne by (simp add: setToEditor_def isEditor_def Let_def)
  have r1: "readOne doc_fields (FieldEq ''_id'' i) ?cg = Some (?upd d)"
    using find_update_first [OF f, of "\<lambda>x. doc_id x = i" ?upd] di
    by (simp add: readOne_def updateOne_def)
  have r2: "readOne doc_fields
      (AndF (FieldEq ''_id'' i) (OrF (FieldEq ''viewers'' u) (FieldEq ''editors'' u))) ?cg
      = Some (?upd d)"
    using find_update_first [OF f, of "\<lambda>x. doc_id x = i \<and> (u \<in> set (viewers x) \<or> u \<in> set (editors x))" ?upd] di
    by (simp add: readOne_def updateOne_def)
  have ie: "isEditor u i ?cg = Inr ()"
    using r1 by (simp add: isEditor_def)
  have restore: "updateOne doc_fields (FieldEq ''_id'' i) (\<lambda>x. x\<lparr>editors := editors d\<rparr>) ?cg = c"
    using update_first_twice [OF f, of ?upd "\<lambda>x. x\<lparr>editors := editors d\<rparr>"] di
    by (simp add: updateOne_def)
  have ra: "removeAccess i u ?cg = (Some ViewersUpdated, c)"
    using r2 nv ne restore
    by (simp add: removeAccess_def Let_def findIndex_eq_none findIndex_append_new)
  from s ie ra show ?thesis by blast
qed

theorem grant_revoke_roundtrip_witness:
  "readOne doc_fields (FieldEq ''_id'' 0)
      \<lparr>docs = [\<lparr>doc_id = 0, owner = 1, editors = [4], viewers = [2]\<rparr>], next_oid = 1\<rparr>
     = Some \<lparr>doc_id = 0, owner = 1, editors = [4], viewers = [2]\<rparr>
   \<and> (\<exists>c1. setToEditor 0 3 \<lparr>docs = [\<lparr>doc_id = 0, owner = 1, editors = [4], viewers = [2]\<rparr>], next_oid = 1\<rparr>
              = Inr (EditorsUpdated, c1)
          \<and> isEditor 3 0 c1 = Inr ()
          \<and> removeAccess 0 3 c1
              = (Some ViewersUpdated,
                 \<lparr>docs = [\<lparr>doc_id = 0, owner = 1, editors = [4], viewers = [2]\<rparr>], next_oid = 1\<rparr>))"
proof -
  let ?d = "\<lparr>doc_id = 0, owner = 1, editors = [4], viewers = [2]\<rparr> :: ItemAccessDoc"
  let ?c = "\<lparr>docs = [?d], next_oid = 1\<rparr>"
  have rd: "readOne doc_fields (FieldEq ''_id'' 0) ?c = Some ?d" by (simp add: readOne_def)
  have ne: "3 \<notin> set (editors ?d)" and nv: "3 \<notin> set (viewers ?d)" by simp_all
  from grant_revoke_roundtrip [OF rd ne nv] rd show ?thesis by blast
qed

text \<open>
  The round trip does not hold for every user who is not an editor. \<open>removeAccess\<close>
  looks in \<open>viewers\<close> first: for a user who is a viewer, the grant adds the user to
  \<open>editors\<close> and the removal takes the user out of \<open>viewers\<close>, so the user ends as
  an editor and no longer a viewer.
\<close>

theorem grant_revoke_counterexample:
  "readOne doc_fields (FieldEq ''_id'' 0)
      \<lparr>docs = [\<lparr>doc_id = 0, owner = 1, editors = [], viewers = [2]\<rparr>], next_oid = 1\<rparr>
     = Some \<lparr>doc_id = 0, owner = 1, editors = [], viewers = [2]\<rparr>
   \<and> setToEditor 0 2 \<lparr>docs = [\<lparr>doc_id = 0, owner = 1, editors = [], viewers = [2]\<rparr>], next_oid = 1\<rparr>
     = Inr (EditorsUpdated,
            \<lparr>docs = [\<lparr>doc_id = 0, owner = 1, editors = [2], viewers = [2]\<rparr>], next_oid = 1\<rparr>)
   \<and> removeAccess 0 2 \<lparr>docs = [\<lparr>doc_id = 0, owner = 1, editors = [2], viewers = [2]\<rparr>], next_oid = 1\<rparr>
     = (Some ViewersUpdated,
        \<lparr>docs = [\<lparr>doc_id = 0, owner = 1, editors = [2], viewers = []\<rparr>], next_oid = 1\<rparr>)
   \<and> snd (removeAccess 0 2
          \<lparr>docs = [\<lparr>doc_id = 0, owner = 1, editors = [2], viewers = [2]\<rparr>], next_oid = 1\<rparr>)
     \<noteq> \<lparr>docs = [\<lparr>doc_id = 0, owner = 1, editors = [], viewers = [2]\<rparr>], next_oid = 1\<rparr>"
  by (simp add: setToEditor_def isEditor_def removeAccess_def readOne_def updateOne_def
      doc_fields_def splice1_def)

section \<open>No identifier twice in a role array\<close>

















section \<open>Two calls of \<open>setToViewer\<close> in flight\<close>

text \<open>The three steps of one call, run without another call in between, are \<open>setToViewer\<close>.\<close>

lemma steps_uninterrupted:
  "(let (s1, c1) = setToViewer_step i u Start c;
        (s2, c2) = setToViewer_step i u s1 c1;
        (s3, c3) = setToViewer_step i u s2 c2
    in (s3, c3))
   = (case setToViewer i u c of
        Inl e \<Rightarrow> (Finished (Inl e), c)
      | Inr (m, c') \<Rightarrow> (Finished (Inr m), c'))"
  by (simp add: setToViewer_def Let_def split: sum.splits option.splits)

lemma readOne_updateOne_viewers:
  "readOne doc_fields (FieldEq ''_id'' i)
     (updateOne doc_fields (FieldEq ''_id'' i) (\<lambda>x. x\<lparr>viewers := vs\<rparr>) c)
   = map_option (\<lambda>x. x\<lparr>viewers := vs\<rparr>) (readOne doc_fields (FieldEq ''_id'' i) c)"
proof -
  have "find (\<lambda>d. doc_id d = i) (update_first (\<lambda>d. doc_id d = i) (\<lambda>x. x\<lparr>viewers := vs\<rparr>) ds)
      = map_option (\<lambda>x. x\<lparr>viewers := vs\<rparr>) (find (\<lambda>d. doc_id d = i) ds)"
    for ds :: "ItemAccessDoc list"
    by (induction ds) auto
  then show ?thesis by (simp add: readOne_def updateOne_def)
qed

text \<open>
  Claim C3, as amended. On an existing record of which neither of two distinct users is
  a viewer (a freshly created record has no viewers), run \<open>setToViewer(i, u1)\<close> and
  \<open>setToViewer(i, u2)\<close> at once, their awaits interleaved in any of the possible ways.
  Both calls return "Viewers successfully updated!", and \<open>viewers\<close> holds both users
  exactly when no write of one call falls between the read and the write of the other.
  The engine has no concurrency control: in the other schedules the later write
  overwrites the earlier one, and only one of the users is a viewer at the end.
\<close>

theorem interleaved_setToViewer:
  assumes rd: "readOne doc_fields (FieldEq ''_id'' i) c = Some d"
    and n1: "u1 \<notin> set (viewers d)" and n2: "u2 \<notin> set (viewers d)" and ne: "u1 \<noteq> u2"
    and sch: "sch \<in> set (interleave [First, First, First] [Second, Second, Second])"
  shows "\<exists>c' d'. run_schedule i u1 u2 sch (Start, Start, c)
             = (Finished (Inr ViewersUpdated), Finished (Inr ViewersUpdated), c')
         \<and> readOne doc_fields (FieldEq ''_id'' i) c' = Some d'
         \<and> ((u1 \<in> set (viewers d') \<and> u2 \<in> set (viewers d')) \<longleftrightarrow> \<not> write_between sch)"
  using sch rd n1 n2 ne
  by (auto simp: isViewer_def Let_def readOne_updateOne_viewers write_between_def)

theorem interleaved_setToViewer_witness:
  "readOne doc_fields (FieldEq ''_id'' 0) (snd (addItem 1 None None empty_store))
     = Some \<lparr>doc_id = 0, owner = 1, editors = [], viewers = []\<rparr>
   \<and> (\<exists>c' d'. run_schedule 0 2 3 [First, Second, First, First, Second, Second]
                  (Start, Start, snd (addItem 1 None None empty_store))
               = (Finished (Inr ViewersUpdated), Finished (Inr ViewersUpdated), c')
          \<and> readOne doc_fields (FieldEq ''_id'' 0) c' = Some d'
          \<and> 2 \<in> set (viewers d') \<and> 3 \<in> set (viewers d'))"
proof -
  let ?d = "\<lparr>doc_id = 0, owner = 1, editors = [], viewers = []\<rparr> :: ItemAccessDoc"
  let ?c = "snd (addItem 1 None None empty_store)"
  let ?sch = "[First, Second, First, First, Second, Second]"
  have rd: "readOne doc_fields (FieldEq ''_id'' 0) ?c = Some ?d"
    by (simp add: addItem_def createOne_def empty_store_def readOne_def Let_def)
  have n1: "2 \<notin> set (viewers ?d)" and n2: "3 \<notin> set (viewers ?d)" and ne: "(2 :: nat) \<noteq> 3"
    by simp_all
  have sch: "?sch \<in> set (interleave [First, First, First] [Second, Second, Second])"
    by simp
  have nb: "\<not> write_between ?sch" by (simp add: write_between_def)
  from interleaved_setToViewer [OF rd n1 n2 ne sch] nb rd show ?thesis by blast
qed

text \<open>
  The lost update. On the record that \<open>addItem\<close> has just created, the two calls for
  users 2 and 3 take their steps in turn: both find the user is no viewer, both read the
  record with no viewers, the first writes \<open>[2]\<close> and the second writes \<open>[3]\<close> over it.
  Both return "Viewers successfully updated!", and user 2 is not a viewer.
\<close>

theorem lost_update_counterexample:
  "snd (addItem 1 None None empty_store)
     = \<lparr>docs = [\<lparr>doc_id = 0, owner = 1, editors = [], viewers = []\<rparr>], next_oid = 1\<rparr>
   \<and> run_schedule 0 2 3 [First, Second, First, Second, First, Second]
        (Start, Start,
         \<lparr>docs = [\<lparr>doc_id = 0, owner = 1, editors = [], viewers = []\<rparr>], next_oid = 1\<rparr>)
     = (Finished (Inr ViewersUpdated), Finished (Inr ViewersUpdated),
        \<lparr>docs = [\<lparr>doc_id = 0, owner = 1, editors = [], viewers = [3]\<rparr>], next_oid = 1\<rparr>)
   \<and> 2 \<notin> set (viewers \<lparr>doc_id = 0, owner = 1, editors = [], viewers = [3]\<rparr>)"
  by (simp add: addItem_def createOne_def empty_store_def Let_def isViewer_def readOne_def
      updateOne_def)

section \<open>Role checks and role mutations of \<open>accessList.ts\<close>\<close>

text \<open>
  The strict checks of \<open>accessList.ts\<close>: each fails with \<open>NotFoundError\<close> exactly when
  no record has the identifier, and otherwise fails with its own error exactly when the
  user does not hold the role.
\<close>

lemma role_checks_accessList:
  "(readOne doc_fields (FieldEq ''_id'' i) c = None \<longrightarrow>
      isOwner u i c = Inl (NotFoundError i) \<and> isViewer u i c = Inl (NotFoundError i)
      \<and> isEditor u i c = Inl (NotFoundError i)) \<and>
   (readOne doc_fields (FieldEq ''_id'' i) c = Some d \<longrightarrow>
      isOwner u i c = (if owner d = u then Inr () else Inl (ItemOwnerNotMatchError u i)) \<and>
      isViewer u i c = (if u \<in> set (viewers d) then Inr () else Inl (ItemViewerNotMatchError u i)) \<and>
      isEditor u i c = (if u \<in> set (editors d) then Inr () else Inl (ItemEditorNotMatchError u i)))"
  by (simp add: isOwner_def isViewer_def isEditor_def)

text \<open>
  \<open>setToViewer\<close> of \<open>accessList.ts\<close> is idempotent: it fails with \<open>NotFoundError\<close>
  without a record; on a record, the user is a viewer once after the first call, and a
  second call returns the "already a viewer" confirmation and changes nothing.
\<close>

lemma setToViewer_NotFound_accessList:
  "readOne doc_fields (FieldEq ''_id'' i) c = None \<Longrightarrow> setToViewer i u c = Inl (NotFoundError i)"
  by (simp add: setToViewer_def isViewer_def)

lemma setToViewer_idempotent_accessList:
  assumes rd: "readOne doc_fields (FieldEq ''_id'' i) c = Some d"
  shows "\<exists>m c1 d1. setToViewer i u c = Inr (m, c1)
      \<and> readOne doc_fields (FieldEq ''_id'' i) c1 = Some d1
      \<and> viewers d1 = (if u \<in> set (viewers d) then viewers d else viewers d @ [u])
      \<and> setToViewer i u c1 = Inr (AlreadyViewer u i, c1)"
proof (cases "u \<in> set (viewers d)")
  case True
  with rd have "setToViewer i u c = Inr (AlreadyViewer u i, c)"
    by (simp add: setToViewer_def isViewer_def)
  with rd True show ?thesis by simp
next
  case False
  let ?upd = "\<lambda>x :: ItemAccessDoc. x\<lparr>viewers := viewers d @ [u]\<rparr>"
  let ?cg = "updateOne doc_fields (FieldEq ''_id'' i) ?upd c"
  from rd have f: "find (\<lambda>x. doc_id x = i) (docs c) = Some d" by (simp add: readOne_def)
  then have di: "doc_id d = i" by (auto dest: find_in_set)
  have s: "setToViewer i u c = Inr (ViewersUpdated, ?cg)"
    using rd False by (simp add: setToViewer_def isViewer_def Let_def)
  have r1: "readOne doc_fields (FieldEq ''_id'' i) ?cg = Some (?upd d)"
    using find_update_first [OF f, of "\<lambda>x. doc_id x = i" ?upd] di
    by (simp add: readOne_def updateOne_def)
  then have "setToViewer i u ?cg = Inr (AlreadyViewer u i, ?cg)"
    by (simp add: setToViewer_def isViewer_def)
  with s r1 False show ?thesis by simp
qed

text \<open>
  \<open>removeAccess\<close> of \<open>accessList.ts\<close>, for a user who is both a viewer and an editor:
  one call removes the user's first entry in \<open>viewers\<close> and leaves \<open>editors\<close> as it
  was, so the user is still an editor.
\<close>

lemma removeAccess_viewers_first_accessList:
  assumes rd: "readOne doc_fields (FieldEq ''_id'' i) c = Some d"
    and inv: "u \<in> set (viewers d)" and ine: "u \<in> set (editors d)"
  shows "removeAccess i u c =
      (Some ViewersUpdated,
       updateOne doc_fields (FieldEq ''_id'' i) (\<lambda>x. x\<lparr>viewers := remove1 u (viewers d)\<rparr>) c)
    \<and> readOne doc_fields (FieldEq ''_id'' i) (snd (removeAccess i u c))
        = Some (d\<lparr>viewers := remove1 u (viewers d)\<rparr>)
    \<and> isEditor u i (snd (removeAccess i u c)) = Inr ()"
proof -
  let ?upd = "\<lambda>x :: ItemAccessDoc. x\<lparr>viewers := remove1 u (viewers d)\<rparr>"
  from rd have f: "find (\<lambda>x. doc_id x = i) (docs c) = Some d" by (simp add: readOne_def)
  then have di: "doc_id d = i" by (auto dest: find_in_set)
  have "find (\<lambda>x. doc_id x = i \<and> (u \<in> set (viewers x) \<or> u \<in> set (editors x))) (docs c) = Some d"
    by (rule find_stronger [OF f]) (use di inv in auto)
  then have ra: "removeAccess i u c =
      (Some ViewersUpdated, updateOne doc_fields (FieldEq ''_id'' i) ?upd c)"
    using inv by (simp add: removeAccess_def readOne_def Let_def findIndex_eq_none splice1_findIndex)
  have r1: "readOne doc_fields (FieldEq ''_id'' i) (updateOne doc_fields (FieldEq ''_id'' i) ?upd c)
      = Some (?upd d)"
    using find_update_first [OF f, of "\<lambda>x. doc_id x = i" ?upd] di
    by (simp add: readOne_def updateOne_def)
  from ra r1 ine show ?thesis by (simp add: isEditor_def)
qed

section \<open>The second variant: lookups by \<open>{ itemId }\<close>\<close>

text \<open>
  \<open>hasItemAccess\<close> is the union of the three roles. The four functions that look the
  record up by \<open>{ itemId }\<close> never find one, whatever the collection holds:
  \<open>canView\<close>, \<open>isViewer\<close> and \<open>isEditor\<close> always fail with \<open>NotFoundError\<close>, and
  \<open>removeAccess\<close> always answers "already restricted" and changes nothing.
\<close>

lemma hasItemAccess_union:
  "hasItemAccess it user \<longleftrightarrow> owner it = user \<or> user \<in> set (editors it) \<or> user \<in> set (viewers it)"
  by (auto simp: hasItemAccess_def)

lemma canView_NotFound: "canView user itemId c = Inl (NotFoundError itemId)"
  by (simp add: canView_def readOne_def)

lemma isViewer_p1_NotFound: "isViewer_p1 user itemId c = Inl (NotFoundError itemId)"
  by (simp add: isViewer_p1_def readOne_def)

lemma isEditor_p1_NotFound: "isEditor_p1 user itemId c = Inl (NotFoundError itemId)"
  by (simp add: isEditor_p1_def readOne_def)

lemma removeAccess_p1_noop: "removeAccess_p1 itemId user c = (AlreadyRestricted user itemId, c)"
proof -
  have "find (matches doc_fields_p1 (AndF (FieldEq ''itemId'' itemId) g)) ds = None" for g ds
    by (simp add: find_None_iff)
  then show ?thesis by (simp add: removeAccess_p1_def readOne_def)
qed

text \<open>
  Claim C1. \<open>canView\<close> is to succeed exactly for the owner, the editors and the viewers
  of an existing record. In the code it does not. \<open>addItem\<close> for item 7 with owner 1
  and the one viewer 2 creates the record, and \<open>isOwner\<close> succeeds on it for user 1;
  \<open>hasItemAccess\<close> grants user 2 access to the record, but \<open>canView\<close> for user 2
  fails with \<open>NotFoundError\<close>, by the item's identifier and by the record's.
\<close>

theorem canView_viewer_NotFound:
  "snd (addItem_p1 7 1 (Some []) (Some [2]) empty_store)
     = \<lparr>docs = [\<lparr>doc_id = 0, owner = 1, editors = [], viewers = [2], item = 7\<rparr>], next_oid = 1\<rparr>
   \<and> isOwner_p1 1 7 \<lparr>docs = [\<lparr>doc_id = 0, owner = 1, editors = [], viewers = [2], item = 7\<rparr>],
                    next_oid = 1\<rparr> = Inr ()
   \<and> hasItemAccess \<lparr>doc_id = 0, owner = 1, editors = [], viewers = [2], item = 7\<rparr> 2
   \<and> canView 2 7 \<lparr>docs = [\<lparr>doc_id = 0, owner = 1, editors = [], viewers = [2], item = 7\<rparr>],
                   next_oid = 1\<rparr> = Inl (NotFoundError 7)
   \<and> canView 2 0 \<lparr>docs = [\<lparr>doc_id = 0, owner = 1, editors = [], viewers = [2], item = 7\<rparr>],
                   next_oid = 1\<rparr> = Inl (NotFoundError 0)"
  by (simp add: addItem_p1_def createOne_def empty_store_def Let_def canView_def isOwner_p1_def
      hasItemAccess_def readOne_def doc_fields_p1_def)

text \<open>
  Claim C2. \<open>setToViewer\<close> is to be idempotent. In the second variant it is not: on the
  record that \<open>addItem\<close> creates without viewers, the first call for user 2 appends the
  user, and the second call appends the user again and returns "Viewers successfully
  updated!", since its \<open>isViewer\<close> check fails with \<open>NotFoundError\<close> and the \<open>catch\<close>
  block pushes.
\<close>

theorem setToViewer_p1_twice:
  "snd (addItem_p1 7 1 None None empty_store)
     = \<lparr>docs = [\<lparr>doc_id = 0, owner = 1, editors = [], viewers = [], item = 7\<rparr>], next_oid = 1\<rparr>
   \<and> setToViewer_p1 0 2 \<lparr>docs = [\<lparr>doc_id = 0, owner = 1, editors = [], viewers = [], item = 7\<rparr>],
                        next_oid = 1\<rparr>
     = Inr (ViewersUpdated,
            \<lparr>docs = [\<lparr>doc_id = 0, owner = 1, editors = [], viewers = [2], item = 7\<rparr>],
             next_oid = 1\<rparr>)
   \<and> setToViewer_p1 0 2 \<lparr>docs = [\<lparr>doc_id = 0, owner = 1, editors = [], viewers = [2], item = 7\<rparr>],
                          next_oid = 1\<rparr>
     = Inr (ViewersUpdated,
            \<lparr>docs = [\<lparr>doc_id = 0, owner = 1, editors = [], viewers = [2, 2], item = 7\<rparr>],
             next_oid = 1\<rparr>)"
  by (simp add: addItem_p1_def createOne_def empty_store_def Let_def setToViewer_p1_def isViewer_p1_def
      readOne_def updateOne_def doc_fields_p1_def)

text \<open>
  Claim C4. A strict role check is to fail with \<open>NotFoundError\<close> only when no record
  exists. In the second variant, on the record that \<open>addItem\<close> creates for item 7 with
  owner 1, editor 3 and viewer 2, \<open>isOwner\<close> finds the record, while \<open>isViewer\<close> for
  user 2 and \<open>isEditor\<close> for user 3 fail with \<open>NotFoundError\<close>.
\<close>

theorem isViewer_p1_existing_NotFound:
  "snd (addItem_p1 7 1 (Some [3]) (Some [2]) empty_store)
     = \<lparr>docs = [\<lparr>doc_id = 0, owner = 1, editors = [3], viewers = [2], item = 7\<rparr>], next_oid = 1\<rparr>
   \<and> isOwner_p1 1 7 \<lparr>docs = [\<lparr>doc_id = 0, owner = 1, editors = [3], viewers = [2], item = 7\<rparr>],
                    next_oid = 1\<rparr> = Inr ()
   \<and> isViewer_p1 2 7 \<lparr>docs = [\<lparr>doc_id = 0, owner = 1, editors = [3], viewers = [2], item = 7\<rparr>],
                       next_oid = 1\<rparr> = Inl (NotFoundError 7)
   \<and> isEditor_p1 3 7 \<lparr>docs = [\<lparr>doc_id = 0, owner = 1, editors = [3], viewers = [2], item = 7\<rparr>],
                       next_oid = 1\<rparr> = Inl (NotFoundError 7)"
  by (simp add: addItem_p1_def createOne_def empty_store_def Let_def isOwner_p1_def isViewer_p1_def
      isEditor_p1_def readOne_def doc_fields_p1_def)

text \<open>
  Claim C10. For a user in both \<open>viewers\<close> and \<open>editors\<close>, one \<open>removeAccess\<close> is to
  remove the user from \<open>viewers\<close> only, after which the user still passes \<open>canView\<close>.
  In the second variant, on the record that \<open>addItem\<close> creates for item 7 with user 2
  in both roles, \<open>removeAccess\<close> for user 2 answers "already restricted" and removes
  nothing, and \<open>canView\<close> fails with \<open>NotFoundError\<close>.
\<close>

theorem removeAccess_p1_both_roles:
  "snd (addItem_p1 7 1 (Some [2]) (Some [2]) empty_store)
     = \<lparr>docs = [\<lparr>doc_id = 0, owner = 1, editors = [2], viewers = [2], item = 7\<rparr>], next_oid = 1\<rparr>
   \<and> removeAccess_p1 7 2 \<lparr>docs = [\<lparr>doc_id = 0, owner = 1, editors = [2], viewers = [2], item = 7\<rparr>],
                         next_oid = 1\<rparr>
     = (AlreadyRestricted 2 7,
        \<lparr>docs = [\<lparr>doc_id = 0, owner = 1, editors = [2], viewers = [2], item = 7\<rparr>], next_oid = 1\<rparr>)
   \<and> canView 2 7 \<lparr>docs = [\<lparr>doc_id = 0, owner = 1, editors = [2], viewers = [2], item = 7\<rparr>],
                   next_oid = 1\<rparr> = Inl (NotFoundError 7)"
  by (simp add: addItem_p1_def createOne_def empty_store_def Let_def removeAccess_p1_def canView_def
      readOne_def doc_fields_p1_def)

end
